theory Spec2Isabelle
  imports
    Complex_Main
    "HOL-Library.Char_ord"
    "HOL-Library.List_Lexorder"
    "HOL-Library.Product_Lexorder"
    "HOL-Library.Multiset"
begin

section \<open>Data model of \<^verbatim>\<open>app.py\<close>\<close>

text \<open>
  The program keeps its data in pandas DataFrames. A DataFrame is a sequence of named
  columns of equal length; row \<open>i\<close> of the table is what the columns hold at position
  \<open>i\<close>. A cell is a number, a text, a timestamp (pandas \<open>datetime64[ns]\<close>: nanoseconds
  since the epoch, so a timestamp carries a time of day) or missing (a blank cell, which
  pandas holds as NaN, None or NaT). Numbers are read as rationals: the model does not
  round, so it states no identity that depends on how float64 sums or products round.
\<close>

datatype cell = Num rat | Str string | Date int | Missing

type_synonym dataframe = "(string \<times> cell list) list"

text \<open>The exceptions the modelled code paths raise, with what their message names.\<close>

datatype message =
    Missing_columns "string set"
  | Could_not_convert string
  | No_samples
  | Not_finite

datatype error = ValueError message | KeyError string | TypeError | IndexError

definition and_then :: "error + 'a \<Rightarrow> ('a \<Rightarrow> error + 'b) \<Rightarrow> error + 'b" where
  "and_then r f = (case r of Inl e \<Rightarrow> Inl e | Inr x \<Rightarrow> f x)"

fun traverse :: "('a \<Rightarrow> error + 'b) \<Rightarrow> 'a list \<Rightarrow> error + 'b list" where
  "traverse f [] = Inr []"
| "traverse f (x # xs) =
     and_then (f x) (\<lambda>y. and_then (traverse f xs) (\<lambda>ys. Inr (y # ys)))"

definition columns :: "dataframe \<Rightarrow> string list" where
  "columns df = map fst df"

text \<open>\<^verbatim>\<open>df[c]\<close>: the column named \<open>c\<close>, or a \<^verbatim>\<open>KeyError\<close>.\<close>

definition column :: "dataframe \<Rightarrow> string \<Rightarrow> error + cell list" where
  "column df c = (case map_of df c of None \<Rightarrow> Inl (KeyError c) | Some xs \<Rightarrow> Inr xs)"

text \<open>\<^verbatim>\<open>len(df)\<close>: the number of rows.\<close>

definition nrows :: "dataframe \<Rightarrow> nat" where
  "nrows df = (case df of [] \<Rightarrow> 0 | (c, xs) # rest \<Rightarrow> length xs)"

definition rectangular :: "dataframe \<Rightarrow> bool" where
  "rectangular df = (distinct (map fst df) \<and> list_all (\<lambda>(c, xs). length xs = nrows df) df)"

section \<open>Schema validation\<close>

definition REQUIRED_COLUMNS :: "string list" where
  "REQUIRED_COLUMNS =
     [''date'', ''month'', ''area'', ''product'',
      ''sale_count'', ''sale_amount'', ''gst'', ''net_value'', ''profit'']"

text \<open>
  \<^verbatim>\<open>validate_data\<close> (lines 27-30): the set difference of the required names and the
  table's column names; a non-empty difference is raised as a \<^verbatim>\<open>ValueError\<close> whose
  message prints that set. The function returns nothing and does not touch the table.
\<close>

definition validate_data :: "dataframe \<Rightarrow> error + unit" where
  "validate_data df =
     (let missing = set REQUIRED_COLUMNS - set (columns df)
      in if missing \<noteq> {} then Inl (ValueError (Missing_columns missing)) else Inr ())"

section \<open>Python numbers from text\<close>

text \<open>
  What \<^verbatim>\<open>float(s)\<close> and \<^verbatim>\<open>int(s)\<close> read from a text. Both drop surrounding blanks and
  take an optional sign. \<^verbatim>\<open>float\<close> then reads \<^verbatim>\<open>inf\<close>, \<^verbatim>\<open>infinity\<close> or \<^verbatim>\<open>nan\<close> in any
  letter case, or decimal digits with an optional fraction and an optional exponent;
  \<^verbatim>\<open>int\<close> reads decimal digits only. An underscore may stand between two digits.
  Texts are byte strings here: blanks and digits outside ASCII are not recognised.
  A literal within the float64 range reads as the exact number it spells (the model
  does not round it); beyond the range it reads as an infinity.
\<close>

datatype pyfloat = Finite rat | Infinity bool | NaN

definition is_digit :: "char \<Rightarrow> bool" where
  "is_digit c = (CHR ''0'' \<le> c \<and> c \<le> CHR ''9'')"

definition is_space :: "char \<Rightarrow> bool" where
  "is_space c = (of_char c \<in> set [9, 10, 11, 12, 13, 28, 29, 30, 31, 32 :: nat])"

definition strip :: "string \<Rightarrow> string" where
  "strip s = rev (dropWhile is_space (rev (dropWhile is_space s)))"

text \<open>Every underscore has a digit before it and a digit after it.\<close>

fun underscores_ok :: "char \<Rightarrow> string \<Rightarrow> bool" where
  "underscores_ok prev [] = (prev \<noteq> CHR ''_'')"
| "underscores_ok prev (c # cs) =
     ((if c = CHR ''_'' then is_digit prev else prev \<noteq> CHR ''_'' \<or> is_digit c)
      \<and> underscores_ok c cs)"

definition digits_value :: "string \<Rightarrow> nat" where
  "digits_value s = foldl (\<lambda>n c. 10 * n + (of_char c - 48)) 0 s"

definition split_sign :: "string \<Rightarrow> bool \<times> string" where
  "split_sign s =
     (case s of [] \<Rightarrow> (False, [])
      | c # cs \<Rightarrow> if c = CHR ''-'' then (True, cs)
                  else if c = CHR ''+'' then (False, cs) else (False, s))"

definition lower :: "char \<Rightarrow> char" where
  "lower c = (if CHR ''A'' \<le> c \<and> c \<le> CHR ''Z'' then char_of (of_char c + 32 :: nat) else c)"

text \<open>The exponent part: empty, or \<^verbatim>\<open>e\<close> or \<^verbatim>\<open>E\<close>, an optional sign and at least one digit.\<close>

definition exponent_value :: "string \<Rightarrow> int option" where
  "exponent_value s =
     (case s of [] \<Rightarrow> Some 0
      | c # cs \<Rightarrow>
          if c = CHR ''e'' \<or> c = CHR ''E''
          then (let (neg, ds) = split_sign cs
                in if ds \<noteq> [] \<and> list_all is_digit ds
                   then Some (if neg then - int (digits_value ds) else int (digits_value ds))
                   else None)
          else None)"

definition pow10 :: "int \<Rightarrow> rat" where
  "pow10 e = (if 0 \<le> e then 10 ^ nat e else 1 / 10 ^ nat (- e))"

definition decimal_value :: "string \<Rightarrow> rat option" where
  "decimal_value s =
     (let ip = takeWhile is_digit s; r1 = dropWhile is_digit s;
          has_point = (r1 \<noteq> [] \<and> hd r1 = CHR ''.'');
          fp = (if has_point then takeWhile is_digit (tl r1) else []);
          r2 = (if has_point then dropWhile is_digit (tl r1) else r1)
      in if ip = [] \<and> fp = [] then None
         else case exponent_value r2 of None \<Rightarrow> None
              | Some e \<Rightarrow>
                  Some (of_nat (digits_value (ip @ fp)) * pow10 (e - int (length fp))))"

definition in_float_range :: "rat \<Rightarrow> bool" where
  "in_float_range q = (\<bar>q\<bar> < 2 ^ 1024 - 2 ^ 970)"

definition float_of_text :: "string \<Rightarrow> pyfloat option" where
  "float_of_text s =
     (let t = strip s
      in if \<not> underscores_ok (CHR 0x00) t then None
         else let (neg, body) = split_sign (filter (\<lambda>c. c \<noteq> CHR ''_'') t);
                  word = map lower body
              in if word = ''inf'' \<or> word = ''infinity'' then Some (Infinity neg)
                 else if word = ''nan'' then Some NaN
                 else case decimal_value body of None \<Rightarrow> None
                      | Some q \<Rightarrow>
                          Some (if in_float_range q then Finite (if neg then - q else q)
                                else Infinity neg))"

definition int_of_text :: "string \<Rightarrow> int option" where
  "int_of_text s =
     (let t = strip s
      in if \<not> underscores_ok (CHR 0x00) t then None
         else let (neg, body) = split_sign (filter (\<lambda>c. c \<noteq> CHR ''_'') t)
              in if body \<noteq> [] \<and> list_all is_digit body
                 then Some (if neg then - int (digits_value body) else int (digits_value body))
                 else None)"

section \<open>Aggregation\<close>

text \<open>
  Python's \<^verbatim>\<open>+\<close> on two cells: numbers add, texts concatenate, every other pairing
  raises \<^verbatim>\<open>TypeError\<close>.
\<close>

fun py_add :: "cell \<Rightarrow> cell \<Rightarrow> error + cell" where
  "py_add (Num a) (Num b) = Inr (Num (a + b))"
| "py_add (Str a) (Str b) = Inr (Str (a @ b))"
| "py_add _ _ = Inl TypeError"

text \<open>
  \<^verbatim>\<open>Series.sum()\<close>: missing cells count as the number 0 (\<^verbatim>\<open>skipna\<close>), then the cells
  are added from left to right; the sum of an empty column is the number 0.
\<close>

fun sum_from :: "cell \<Rightarrow> cell list \<Rightarrow> error + cell" where
  "sum_from acc [] = Inr acc"
| "sum_from acc (x # xs) = and_then (py_add acc x) (\<lambda>acc'. sum_from acc' xs)"

definition fill_missing :: "cell \<Rightarrow> cell" where
  "fill_missing c = (if c = Missing then Num 0 else c)"

definition series_sum :: "cell list \<Rightarrow> error + cell" where
  "series_sum xs =
     (case map fill_missing xs of [] \<Rightarrow> Inr (Num 0) | x # rest \<Rightarrow> sum_from x rest)"

text \<open>\<^verbatim>\<open>float(x)\<close> and \<^verbatim>\<open>int(x)\<close>; \<^verbatim>\<open>int\<close> of a number truncates towards zero.\<close>

fun py_float :: "cell \<Rightarrow> error + pyfloat" where
  "py_float (Num q) = Inr (Finite q)"
| "py_float (Str s) =
     (case float_of_text s of Some v \<Rightarrow> Inr v
      | None \<Rightarrow> Inl (ValueError (Could_not_convert s)))"
| "py_float (Date t) = Inl TypeError"
| "py_float Missing = Inr NaN"

fun py_int :: "cell \<Rightarrow> error + int" where
  "py_int (Num q) = Inr (if 0 \<le> q then \<lfloor>q\<rfloor> else \<lceil>q\<rceil>)"
| "py_int (Str s) =
     (case int_of_text s of Some n \<Rightarrow> Inr n
      | None \<Rightarrow> Inl (ValueError (Could_not_convert s)))"
| "py_int (Date t) = Inl TypeError"
| "py_int Missing = Inl (ValueError Not_finite)"

record summary =
  total_sales :: pyfloat
  total_profit :: pyfloat
  total_units :: int
  total_gst :: pyfloat

text \<open>One entry of the summary: \<^verbatim>\<open>conv(df[c].sum())\<close>.\<close>

definition field_total :: "(cell \<Rightarrow> error + 'a) \<Rightarrow> dataframe \<Rightarrow> string \<Rightarrow> error + 'a" where
  "field_total conv df c = and_then (and_then (column df c) series_sum) conv"

text \<open>
  The summary dictionary (lines 96-101 and again 177-182). Its four entries are
  evaluated in the order written, so the first failing entry decides the exception.
\<close>

definition summarize :: "dataframe \<Rightarrow> error + summary" where
  "summarize df =
     and_then (field_total py_float df ''sale_amount'') (\<lambda>sales.
     and_then (field_total py_float df ''profit'') (\<lambda>prof.
     and_then (field_total py_int df ''sale_count'') (\<lambda>units.
     and_then (field_total py_float df ''gst'') (\<lambda>g.
       Inr \<lparr>total_sales = sales, total_profit = prof, total_units = units,
            total_gst = g\<rparr>))))"

text \<open>
  The order of cells that sorting by a key column uses: numbers by value, texts
  lexicographically by character code, timestamps by time. Cells of different kinds
  are kept apart by kind.
\<close>

fun cell_key :: "cell \<Rightarrow> nat \<times> rat \<times> string" where
  "cell_key (Num q) = (0, q, [])"
| "cell_key (Str s) = (1, 0, s)"
| "cell_key (Date t) = (2, of_int t, [])"
| "cell_key Missing = (3, 0, [])"

instantiation cell :: linorder
begin

definition less_eq_cell :: "cell \<Rightarrow> cell \<Rightarrow> bool" where
  "less_eq_cell x y = (cell_key x \<le> cell_key y)"

definition less_cell :: "cell \<Rightarrow> cell \<Rightarrow> bool" where
  "less_cell x y = (cell_key x < cell_key y)"

instance
proof
  fix x y z :: cell
  show "(x < y) = (x \<le> y \<and> \<not> y \<le> x)"
    unfolding less_eq_cell_def less_cell_def by auto
  show "x \<le> x"
    unfolding less_eq_cell_def by simp
  show "x \<le> y \<Longrightarrow> y \<le> z \<Longrightarrow> x \<le> z"
    unfolding less_eq_cell_def by simp
  show "x \<le> y \<or> y \<le> x"
    unfolding less_eq_cell_def by auto
  have inj: "cell_key x = cell_key y \<Longrightarrow> x = y"
    by (cases x; cases y) auto
  show "x \<le> y \<Longrightarrow> y \<le> x \<Longrightarrow> x = y"
    unfolding less_eq_cell_def using inj by auto
qed

end

text \<open>
  \<^verbatim>\<open>groupby(key, as_index=False)["sale_amount"].sum()\<close>: one entry per distinct key,
  the keys in ascending order (pandas sorts group keys unless told otherwise), each
  with the \<^verbatim>\<open>sum()\<close> of the values of the rows that carry the key, in row order.
\<close>

definition groupby_sum :: "('k::linorder) list \<Rightarrow> cell list \<Rightarrow> error + ('k \<times> cell) list" where
  "groupby_sum keys vals =
     traverse
       (\<lambda>k. and_then (series_sum (map snd (filter (\<lambda>(k', v). k' = k) (zip keys vals))))
                     (\<lambda>s. Inr (k, s)))
       (sort (remdups keys))"

text \<open>
  Rows whose key cell is missing belong to no group (\<^verbatim>\<open>groupby\<close> drops them unless
  \<^verbatim>\<open>dropna=False\<close> is given, and the code does not give it).
\<close>

definition present_rows :: "cell list \<Rightarrow> cell list \<Rightarrow> (cell \<times> cell) list" where
  "present_rows keys vals = filter (\<lambda>(k, v). k \<noteq> Missing) (zip keys vals)"

definition group_sum :: "dataframe \<Rightarrow> string \<Rightarrow> error + (cell \<times> cell) list" where
  "group_sum df key =
     and_then (column df key) (\<lambda>keys.
     and_then (column df ''sale_amount'') (\<lambda>vals.
       groupby_sum (map fst (present_rows keys vals)) (map snd (present_rows keys vals))))"

section \<open>The interchange form\<close>




















section \<open>Forecast\<close>

text \<open>
  \<^verbatim>\<open>pd.to_datetime\<close> on the date column. Timestamps pass unchanged, a missing cell
  becomes \<^verbatim>\<open>NaT\<close> (here \<open>None\<close>), a number counts nanoseconds since the epoch and loses
  its fraction. Parsing of date texts belongs to the library and is not modelled: a
  text cell is reported as not convertible.
\<close>

fun to_datetime :: "cell \<Rightarrow> error + int option" where
  "to_datetime (Date t) = Inr (Some t)"
| "to_datetime (Num q) = Inr (Some (if 0 \<le> q then \<lfloor>q\<rfloor> else \<lceil>q\<rceil>))"
| "to_datetime (Str s) = Inl (ValueError (Could_not_convert s))"
| "to_datetime Missing = Inr None"

text \<open>\<^verbatim>\<open>pd.Timedelta(days=1)\<close> in nanoseconds, and the calendar day of a timestamp.\<close>

definition ns_per_day :: int where
  "ns_per_day = 86400000000000"

definition day_of :: "int \<Rightarrow> int" where
  "day_of t = t div ns_per_day"

text \<open>The rows that \<^verbatim>\<open>groupby("date")\<close> sees: those whose date is not \<^verbatim>\<open>NaT\<close>.\<close>

definition dated_rows :: "int option list \<Rightarrow> cell list \<Rightarrow> (int \<times> cell) list" where
  "dated_rows dates amounts =
     concat (map (\<lambda>(d, a). case d of None \<Rightarrow> [] | Some t \<Rightarrow> [(t, a)]) (zip dates amounts))"

text \<open>
  Lines 121-123: the grouped sums by date value, sorted by date, with the column
  \<^verbatim>\<open>day\<close> = \<^verbatim>\<open>np.arange(len(daily_sales))\<close>. An entry is (date, sale_amount, day).
\<close>

definition daily_sales :: "int list \<Rightarrow> cell list \<Rightarrow> error + (int \<times> cell \<times> nat) list" where
  "daily_sales dates amounts =
     and_then (groupby_sum dates amounts) (\<lambda>g.
       let s = sort_key fst g
       in Inr (map (\<lambda>((d, a), i). (d, a, i)) (zip s [0..<length s])))"

text \<open>
  The regression is scikit-learn's \<^verbatim>\<open>LinearRegression\<close>, which computes in float64
  outside this repository. It enters as two parameters: \<open>solver\<close>, which returns the
  fitted model for the columns \<open>X\<close> and \<open>y\<close>, and \<open>line\<close>, which evaluates a fitted model
  at a day (\<^verbatim>\<open>model.predict\<close>). What \<^verbatim>\<open>fit\<close> does before solving is modelled: no
  sample is a \<^verbatim>\<open>ValueError\<close>, and the targets are converted to finite numbers.
\<close>

definition as_float :: "cell \<Rightarrow> error + rat" where
  "as_float c =
     and_then (py_float c)
       (\<lambda>v. case v of Finite q \<Rightarrow> Inr q | _ \<Rightarrow> Inl (ValueError Not_finite))"

definition fit ::
  "(rat list \<Rightarrow> rat list \<Rightarrow> error + 'm) \<Rightarrow> rat list \<Rightarrow> cell list \<Rightarrow> error + 'm" where
  "fit solver X y =
     (if X = [] then Inl (ValueError No_samples)
      else and_then (traverse as_float y) (solver X))"

definition future_days :: nat where
  "future_days = 30"

text \<open>\<^verbatim>\<open>pd.date_range(start, periods=n)\<close>: \<open>n\<close> timestamps one day apart from \<open>start\<close> on.\<close>

definition date_range :: "int \<Rightarrow> nat \<Rightarrow> int list" where
  "date_range start periods = map (\<lambda>k. start + int k * ns_per_day) [0..<periods]"

datatype color = Green | Red

text \<open>
  Lines 139-142. For \<open>i = 0\<close> the comparison is not evaluated (\<^verbatim>\<open>or\<close> short-circuits).
\<close>

definition colors_of :: "rat list \<Rightarrow> color list" where
  "colors_of fv =
     map (\<lambda>i. if i = 0 \<or> fv ! i \<ge> fv ! (i - 1) then Green else Red) [0..<length fv]"

text \<open>
  Lines 148-154: for every \<open>i\<close> below \<open>len - 1\<close> one line from forecast point \<open>i\<close> to
  forecast point \<open>i + 1\<close>, drawn in \<open>colors[i]\<close>. A segment is (start, end, color).
\<close>

definition segments_of ::
  "int list \<Rightarrow> rat list \<Rightarrow> color list \<Rightarrow> ((int \<times> rat) \<times> (int \<times> rat) \<times> color) list" where
  "segments_of ds fv cs =
     map (\<lambda>i. ((ds ! i, fv ! i), (ds ! (i + 1), fv ! (i + 1)), cs ! i)) [0..<length fv - 1]"

record 'm forecast_view =
  fc_daily_sales :: "(int \<times> cell \<times> nat) list"
  fc_model :: 'm
  fc_values :: "rat list"
  fc_dates :: "int list"
  fc_colors :: "color list"
  fc_historical :: "(int \<times> cell) list"
  fc_segments :: "((int \<times> rat) \<times> (int \<times> rat) \<times> color) list"
  fc_markers :: "(int \<times> rat \<times> color) list"
  fc_data :: "(int \<times> rat) list"
  fc_summary :: summary
  fc_area_sales :: "(cell \<times> cell) list"

text \<open>
  \<^verbatim>\<open>forecast\<close> (lines 116-193) from the table read back on. The view collects what
  the function computes: the daily series, the fitted model, the 30 values and dates,
  the chart's historical line, segments and markers, the (date, value) pairs of
  \<^verbatim>\<open>forecast_data\<close>, and the summary and area sums passed to the report.
  \<^verbatim>\<open>strftime("%Y-%m-%d")\<close> prints the calendar day of a timestamp and drops the time of
  day; the day number stands for the printed text.
\<close>

definition forecast ::
  "(rat list \<Rightarrow> rat list \<Rightarrow> error + 'm) \<Rightarrow> ('m \<Rightarrow> rat \<Rightarrow> rat) \<Rightarrow> dataframe
     \<Rightarrow> error + 'm forecast_view" where
  "forecast solver line df =
     and_then (column df ''date'') (\<lambda>dc.
     and_then (traverse to_datetime dc) (\<lambda>dates.
     and_then (column df ''sale_amount'') (\<lambda>amounts.
     and_then (daily_sales (map fst (dated_rows dates amounts))
                           (map snd (dated_rows dates amounts))) (\<lambda>daily.
     and_then (fit solver (map (\<lambda>(d, a, i). of_nat i) daily)
                          (map (\<lambda>(d, a, i). a) daily)) (\<lambda>m.
       let future_X = map of_nat [length daily..<length daily + future_days];
           forecast_values = map (line m) future_X
       in if daily = [] then Inl IndexError
          else
            let forecast_dates = date_range (fst (last daily) + ns_per_day) future_days;
                colors = colors_of forecast_values
            in and_then (summarize df) (\<lambda>s.
               and_then (group_sum df ''area'') (\<lambda>ar.
                 Inr \<lparr>fc_daily_sales = daily, fc_model = m,
                      fc_values = forecast_values, fc_dates = forecast_dates,
                      fc_colors = colors,
                      fc_historical = map (\<lambda>(d, a, i). (d, a)) daily,
                      fc_segments = segments_of forecast_dates forecast_values colors,
                      fc_markers = zip forecast_dates (zip forecast_values colors),
                      fc_data = zip (map day_of forecast_dates) forecast_values,
                      fc_summary = s, fc_area_sales = ar\<rparr>)))))))"


text \<open>
  A regression to put in the parameters where a concrete one is needed: least squares
  in exact arithmetic, with slope 0 when all days are equal.
\<close>

definition exact_solver :: "rat list \<Rightarrow> rat list \<Rightarrow> error + rat \<times> rat" where
  "exact_solver X ys =
     (let n = of_nat (length X);
          xm = sum_list X / n;
          ym = sum_list ys / n;
          sxx = sum_list (map (\<lambda>x. (x - xm) * (x - xm)) X);
          sxy = sum_list (map (\<lambda>(x, v). (x - xm) * (v - ym)) (zip X ys));
          a = (if sxx = 0 then 0 else sxy / sxx)
      in Inr (a, ym - a * xm))"

definition exact_line :: "rat \<times> rat \<Rightarrow> rat \<Rightarrow> rat" where
  "exact_line m x = fst m * x + snd m"

section \<open>Well-formed inputs\<close>

text \<open>
  What the claims call a valid Dataset: a rectangular table that passes
  \<^verbatim>\<open>validate_data\<close>, with timestamps in the date column and numbers in the five
  numeric columns. The label columns are not restricted. A column is mixed when it
  holds both a number and a text.
\<close>

fun is_num :: "cell \<Rightarrow> bool" where
  "is_num (Num q) = True"
| "is_num _ = False"

fun is_str :: "cell \<Rightarrow> bool" where
  "is_str (Str s) = True"
| "is_str _ = False"

fun is_date :: "cell \<Rightarrow> bool" where
  "is_date (Date t) = True"
| "is_date _ = False"

definition column_all :: "(cell \<Rightarrow> bool) \<Rightarrow> dataframe \<Rightarrow> string \<Rightarrow> bool" where
  "column_all P df c = (case map_of df c of None \<Rightarrow> False | Some xs \<Rightarrow> list_all P xs)"

definition column_mixed :: "dataframe \<Rightarrow> string \<Rightarrow> bool" where
  "column_mixed df c =
     (case map_of df c of None \<Rightarrow> False
      | Some xs \<Rightarrow> list_ex is_num xs \<and> list_ex is_str xs)"

definition valid_dataset :: "dataframe \<Rightarrow> bool" where
  "valid_dataset df =
     (rectangular df \<and> validate_data df = Inr () \<and> column_all is_date df ''date'' \<and>
      list_all (column_all is_num df)
        [''sale_count'', ''sale_amount'', ''gst'', ''net_value'', ''profit''])"





text \<open>Concrete tables used to exercise the theorems.\<close>

definition sample_table :: dataframe where
  "sample_table =
     [(''date'', [Date 259200000000000, Date 86400000000000, Date 259200000000000]),
      (''month'', [Str ''Jan'', Str ''Jan'', Str ''Jan'']),
      (''area'', [Str ''South'', Str ''North'', Str ''South'']),
      (''product'', [Str ''Pen'', Str ''Ink'', Str ''Ink'']),
      (''sale_count'', [Num 3, Num 2, Num 1]),
      (''sale_amount'', [Num 150, Num 100, Num 50]),
      (''gst'', [Num 15, Num 10, Num 5]),
      (''net_value'', [Num 135, Num 90, Num 45]),
      (''profit'', [Num 30, Num 20, Num 10])]"

definition one_row :: "cell \<Rightarrow> cell \<Rightarrow> cell \<Rightarrow> cell \<Rightarrow> cell \<Rightarrow> dataframe" where
  "one_row area sale_count sale_amount gst profit =
     [(''date'', [Date 0]), (''month'', [Str ''Jan'']), (''area'', [area]),
      (''product'', [Str ''Pen'']), (''sale_count'', [sale_count]),
      (''sale_amount'', [sale_amount]), (''gst'', [gst]), (''net_value'', [Num 95]),
      (''profit'', [profit])]"

definition text_amount_table :: dataframe where
  "text_amount_table = one_row (Str ''North'') (Num 1) (Str ''abc'') (Num 5) (Num 10)"


definition mixed_amount_table :: dataframe where
  "mixed_amount_table =
     [(''date'', [Date 0, Date 0]), (''month'', [Str ''Jan'', Str ''Jan'']),
      (''area'', [Str ''North'', Str ''North'']), (''product'', [Str ''Pen'', Str ''Pen'']),
      (''sale_count'', [Num 1, Num 1]), (''sale_amount'', [Num 10, Str ''abc'']),
      (''gst'', [Num 5, Num 5]), (''net_value'', [Num 95, Num 95]),
      (''profit'', [Num 10, Num 10])]"

definition number_text_table :: dataframe where
  "number_text_table =
     [(''date'', [Date 0, Date 0]), (''month'', [Str ''Jan'', Str ''Jan'']),
      (''area'', [Str ''North'', Str ''North'']), (''product'', [Str ''Pen'', Str ''Pen'']),
      (''sale_count'', [Str ''1'', Str ''2'']), (''sale_amount'', [Str ''10'', Str ''20'']),
      (''gst'', [Num 5, Num 5]), (''net_value'', [Num 95, Num 95]),
      (''profit'', [Str ''abc'', Str ''def''])]"

definition blank_area_table :: dataframe where
  "blank_area_table =
     [(''date'', [Date 0, Date 0]), (''month'', [Str ''Jan'', Str ''Jan'']),
      (''area'', [Str ''North'', Missing]), (''product'', [Str ''Pen'', Str ''Pen'']),
      (''sale_count'', [Num 1, Num 1]), (''sale_amount'', [Num 400, Num 200]),
      (''gst'', [Num 5, Num 5]), (''net_value'', [Num 95, Num 95]),
      (''profit'', [Num 10, Num 10])]"

text \<open>
  A forecast that falls in two steps and stays level in between, as a float64 line
  does when its slope is far below the spacing of the values around 100.
\<close>

definition stepped_values :: "rat list" where
  "stepped_values =
     replicate 8 100 @ replicate 15 (100 - 1 / 2 ^ 46) @ replicate 7 (100 - 2 / 2 ^ 46)"

section \<open>Auxiliary facts\<close>

lemma and_then_Inr_iff: "and_then r f = Inr y \<longleftrightarrow> (\<exists>x. r = Inr x \<and> f x = Inr y)"
  by (cases r) (simp_all add: and_then_def)

lemma and_then_Inr [simp]: "and_then (Inr x) f = f x"
  by (simp add: and_then_def)

lemma and_then_Inl [simp]: "and_then (Inl e) f = Inl e"
  by (simp add: and_then_def)

lemma traverse_Inr:
  "traverse f xs = Inr ys \<Longrightarrow> list_all2 (\<lambda>x y. f x = Inr y) xs ys"
proof (induction xs arbitrary: ys)
  case Nil
  then show ?case by simp
next
  case (Cons x xs)
  then show ?case by (auto simp: and_then_Inr_iff)
qed

lemma traverse_total:
  "(\<And>x. x \<in> set xs \<Longrightarrow> f x = Inr (g x)) \<Longrightarrow> traverse f xs = Inr (map g xs)"
  by (induction xs) simp_all

lemma sum_from_Num: "sum_from (Num a) (map Num qs) = Inr (Num (a + sum_list qs))"
  by (induction qs arbitrary: a) (simp_all add: add.assoc)

lemma fill_missing_simps [simp]:
  "fill_missing (Num q) = Num q" "fill_missing (Str s) = Str s"
  "fill_missing (Date t) = Date t" "fill_missing Missing = Num 0"
  by (simp_all add: fill_missing_def)

lemma series_sum_Num: "series_sum (map Num qs) = Inr (Num (sum_list qs))"
  by (cases qs) (simp_all add: series_sum_def sum_from_Num comp_def)

lemma sum_from_Str: "sum_from (Str a) (map Str ss) = Inr (Str (a @ concat ss))"
  by (induction ss arbitrary: a) simp_all

lemma series_sum_Str: "ss \<noteq> [] \<Longrightarrow> series_sum (map Str ss) = Inr (Str (concat ss))"
  by (cases ss) (simp_all add: series_sum_def sum_from_Str comp_def)

lemma sum_from_Num_Str:
  "Str s \<in> set xs \<Longrightarrow> sum_from (Num a) xs = Inl TypeError"
proof (induction xs arbitrary: a)
  case Nil
  then show ?case by simp
next
  case (Cons x xs)
  then show ?case by (cases x) auto
qed

lemma sum_from_Str_Num:
  "Num q \<in> set xs \<Longrightarrow> sum_from (Str a) xs = Inl TypeError"
proof (induction xs arbitrary: a)
  case Nil
  then show ?case by simp
next
  case (Cons x xs)
  then show ?case by (cases x) auto
qed

lemma series_sum_mixed:
  assumes "Num q \<in> set xs" and "Str s \<in> set xs"
  shows "series_sum xs = Inl TypeError"
proof -
  let ?ys = "map fill_missing xs"
  from assms(1) have n: "Num q \<in> set ?ys" by force
  from assms(2) have t: "Str s \<in> set ?ys" by force
  show ?thesis
  proof (cases ?ys)
    case Nil
    with n show ?thesis by simp
  next
    case (Cons y rest)
    show ?thesis
    proof (cases y)
      case (Num a)
      with Cons t have "Str s \<in> set rest" by auto
      with Cons Num show ?thesis by (simp add: series_sum_def sum_from_Num_Str)
    next
      case (Str a)
      with Cons n have "Num q \<in> set rest" by auto
      with Cons Str show ?thesis by (simp add: series_sum_def sum_from_Str_Num)
    next
      case (Date d)
      with Cons n obtain z zs where "rest = z # zs" by (cases rest) auto
      with Cons Date show ?thesis by (simp add: series_sum_def)
    next
      case Missing
      with Cons n obtain z zs where "rest = z # zs" by (cases rest) auto
      with Cons Missing show ?thesis by (simp add: series_sum_def)
    qed
  qed
qed

lemma groupby_sum_keys:
  "groupby_sum keys vals = Inr g \<Longrightarrow> map fst g = sort (remdups keys)"
proof -
  assume a: "groupby_sum keys vals = Inr g"
  let ?f = "\<lambda>k. and_then (series_sum (map snd (filter (\<lambda>(k', v). k' = k) (zip keys vals))))
                     (\<lambda>s. Inr (k, s))"
  from a have "list_all2 (\<lambda>k y. ?f k = Inr y) (sort (remdups keys)) g"
    unfolding groupby_sum_def by (rule traverse_Inr)
  then have "list_all2 (\<lambda>k y. fst y = k) (sort (remdups keys)) g"
    by (rule list_all2_mono) (auto simp: and_then_Inr_iff)
  then show ?thesis
    by (induction rule: list_all2_induct) auto
qed

lemma groupby_sum_vals:
  assumes "groupby_sum keys vals = Inr g" and "(k, s) \<in> set g"
  shows "series_sum (map snd (filter (\<lambda>(k', v). k' = k) (zip keys vals))) = Inr s"
proof -
  let ?f = "\<lambda>k. and_then (series_sum (map snd (filter (\<lambda>(k', v). k' = k) (zip keys vals))))
                     (\<lambda>s. Inr (k, s))"
  from assms(1) have "list_all2 (\<lambda>k y. ?f k = Inr y) (sort (remdups keys)) g"
    unfolding groupby_sum_def by (rule traverse_Inr)
  with assms(2) obtain k' where "?f k' = Inr (k, s)"
    by (auto simp: list_all2_conv_all_nth in_set_conv_nth)
  then show ?thesis by (auto simp: and_then_Inr_iff)
qed

lemma groupby_sum_Num:
  "groupby_sum keys (map Num qs) =
     Inr (map (\<lambda>k. (k, Num (sum_list (map snd (filter (\<lambda>(k', v). k' = k) (zip keys qs))))))
            (sort (remdups keys)))"
proof -
  have eq: "map snd (filter (\<lambda>(k', v). k' = k) (zip keys (map Num qs))) =
        map Num (map snd (filter (\<lambda>(k', v). k' = k) (zip keys qs)))" for k :: 'a
    by (simp add: zip_map2 filter_map comp_def case_prod_unfold)
  show ?thesis
    unfolding groupby_sum_def
    by (rule traverse_total) (simp add: eq series_sum_Num del: map_map)
qed


lemma daily_sales_Inr:
  assumes "daily_sales dates amounts = Inr ds"
  obtains g where "groupby_sum dates amounts = Inr g"
    and "ds = map (\<lambda>((d, a), i). (d, a, i)) (zip g [0..<length g])"
proof -
  from assms obtain g where g: "groupby_sum dates amounts = Inr g"
    and ds: "ds = (let s = sort_key fst g in map (\<lambda>((d, a), i). (d, a, i)) (zip s [0..<length s]))"
    by (auto simp: daily_sales_def and_then_Inr_iff)
  have "sorted (map fst g)" using groupby_sum_keys [OF g] by simp
  then have "sort_key fst g = g" by (rule sort_key_id_if_sorted)
  with ds g that show ?thesis by simp
qed

lemma daily_sales_length:
  "daily_sales dates amounts = Inr ds \<Longrightarrow> length ds = length (remdups dates)"
  by (erule daily_sales_Inr) (use groupby_sum_keys in \<open>fastforce dest: arg_cong [where f = length]\<close>)

lemma daily_sales_nth:
  assumes "daily_sales dates amounts = Inr ds" and "i < length ds"
  shows "\<exists>a. ds ! i = (sort (remdups dates) ! i, a, i) \<and>
          series_sum (map snd (filter (\<lambda>(d, v). d = sort (remdups dates) ! i) (zip dates amounts)))
            = Inr a"
proof -
  from assms(1) obtain g where g: "groupby_sum dates amounts = Inr g"
    and ds: "ds = map (\<lambda>((d, a), i). (d, a, i)) (zip g [0..<length g])"
    by (rule daily_sales_Inr)
  from ds assms(2) have i: "i < length g" by simp
  have keys: "map fst g = sort (remdups dates)" by (rule groupby_sum_keys [OF g])
  obtain d a where gi: "g ! i = (d, a)" by (cases "g ! i")
  from keys i gi have d: "d = sort (remdups dates) ! i"
    by (metis fst_conv nth_map)
  from gi i have "(d, a) \<in> set g" by (metis nth_mem)
  from groupby_sum_vals [OF g this] d ds i gi show ?thesis by simp
qed

lemma is_num_conv: "list_all is_num xs \<Longrightarrow> \<exists>qs. xs = map Num qs"
proof (induction xs)
  case Nil
  then show ?case by simp
next
  case (Cons x xs)
  then obtain qs where "xs = map Num qs" by auto
  moreover from Cons.prems obtain q where "x = Num q" by (cases x) auto
  ultimately have "x # xs = map Num (q # qs)" by simp
  then show ?case by (rule exI)
qed

lemma is_date_conv: "list_all is_date xs \<Longrightarrow> \<exists>ts. xs = map Date ts"
proof (induction xs)
  case Nil
  then show ?case by simp
next
  case (Cons x xs)
  then obtain ts where "xs = map Date ts" by auto
  moreover from Cons.prems obtain t where "x = Date t" by (cases x) auto
  ultimately have "x # xs = map Date (t # ts)" by simp
  then show ?case by (rule exI)
qed

lemma rectangular_length:
  "rectangular df \<Longrightarrow> map_of df c = Some xs \<Longrightarrow> length xs = nrows df"
  by (auto simp: rectangular_def list_all_iff dest!: map_of_SomeD)

lemma column_all_num:
  "column_all is_num df c \<Longrightarrow> \<exists>qs. map_of df c = Some (map Num qs) \<and> column df c = Inr (map Num qs)"
  by (auto simp: column_all_def column_def split: option.splits dest: is_num_conv)

lemma valid_dataset_required:
  "valid_dataset df \<Longrightarrow> c \<in> set REQUIRED_COLUMNS \<Longrightarrow> \<exists>xs. map_of df c = Some xs"
proof -
  assume v: "valid_dataset df" and c: "c \<in> set REQUIRED_COLUMNS"
  from v have "validate_data df = Inr ()" by (simp add: valid_dataset_def)
  then have "set REQUIRED_COLUMNS \<subseteq> fst ` set df"
    by (auto simp: validate_data_def Let_def columns_def split: if_splits)
  with c have "c \<in> fst ` set df" by blast
  then show ?thesis by (metis map_of_eq_None_iff not_Some_eq)
qed

lemma valid_summarize:
  assumes "valid_dataset df"
  shows "\<exists>qa. column df ''sale_amount'' = Inr (map Num qa) \<and> length qa = nrows df \<and>
           (\<exists>s. summarize df = Inr s \<and> total_sales s = Finite (sum_list qa))"
proof -
  from assms have n: "column_all is_num df ''sale_count''" "column_all is_num df ''sale_amount''"
      "column_all is_num df ''gst''" "column_all is_num df ''profit''"
    and r: "rectangular df"
    by (simp_all add: valid_dataset_def)
  from column_all_num [OF n(1)] obtain qc where qc: "column df ''sale_count'' = Inr (map Num qc)" by blast
  from column_all_num [OF n(2)] obtain qa where qa: "map_of df ''sale_amount'' = Some (map Num qa)"
     "column df ''sale_amount'' = Inr (map Num qa)" by blast
  from column_all_num [OF n(3)] obtain qg where qg: "column df ''gst'' = Inr (map Num qg)" by blast
  from column_all_num [OF n(4)] obtain qp where qp: "column df ''profit'' = Inr (map Num qp)" by blast
  from rectangular_length [OF r qa(1)] have "length qa = nrows df" by simp
  moreover have "\<exists>s. summarize df = Inr s \<and> total_sales s = Finite (sum_list qa)"
    by (simp add: summarize_def field_total_def qa qc qg qp series_sum_Num)
  ultimately show ?thesis using qa by blast
qed

lemma present_rows_keys:
  "length keys = length vals \<Longrightarrow>
   map fst (present_rows keys vals) = filter (\<lambda>k. k \<noteq> Missing) keys"
  unfolding present_rows_def
  by (induction keys vals rule: list_induct2) simp_all

lemma present_rows_zip:
  "zip (map fst (present_rows keys vals)) (map snd (present_rows keys vals)) =
   present_rows keys vals"
  by (simp add: zip_map_fst_snd)

lemma present_rows_all:
  "Missing \<notin> set keys \<Longrightarrow> present_rows keys vals = zip keys vals"
  unfolding present_rows_def
  by (rule filter_True) (auto dest: set_zip_leftD)

lemma present_rows_filter:
  "k \<noteq> Missing \<Longrightarrow>
   filter (\<lambda>(k', v). k' = k) (present_rows keys vals) =
   filter (\<lambda>(k', v). k' = k) (zip keys vals)"
  unfolding present_rows_def
  by (auto intro!: filter_cong)

lemma present_rows_Num:
  "map snd (present_rows keys (map Num qa)) =
   map Num (map snd (filter (\<lambda>(k, q). k \<noteq> Missing) (zip keys qa)))"
  unfolding present_rows_def
  by (simp add: zip_map2 filter_map comp_def case_prod_unfold)

lemma mset_groups:
  "distinct ks \<Longrightarrow>
   mset (concat (map (\<lambda>k. map snd (filter (\<lambda>(k', v). k' = k) kvs)) ks)) =
   mset (map snd (filter (\<lambda>(k', v). k' \<in> set ks) kvs))"
proof (induction ks)
  case Nil
  then show ?case by simp
next
  case (Cons k ks)
  have sp: "mset (map snd (filter (\<lambda>(k', v). k' = k \<or> k' \<in> set ks) kvs)) =
      mset (map snd (filter (\<lambda>(k', v). k' = k) kvs)) +
      mset (map snd (filter (\<lambda>(k', v). k' \<in> set ks) kvs))"
    using Cons.prems by (induction kvs) (auto simp del: mset_filter mset_map)
  from Cons show ?case by (simp add: sp del: mset_filter mset_map)
qed

lemma group_sum_rows:
  assumes "column df key = Inr keys" and "column df ''sale_amount'' = Inr vals"
    and "group_sum df key = Inr g"
  shows "map fst g = sort (remdups (map fst (present_rows keys vals)))"
    and "\<forall>(k, s) \<in> set g.
           series_sum (map snd (filter (\<lambda>(k', v). k' = k) (present_rows keys vals))) = Inr s"
    and "mset (concat (map (\<lambda>(k, s). map snd (filter (\<lambda>(k', v). k' = k)
            (present_rows keys vals))) g)) = mset (map snd (present_rows keys vals))"
proof -
  let ?pr = "present_rows keys vals"
  from assms have g: "groupby_sum (map fst ?pr) (map snd ?pr) = Inr g"
    by (simp add: group_sum_def)
  show k: "map fst g = sort (remdups (map fst ?pr))" by (rule groupby_sum_keys [OF g])
  show "\<forall>(k, s) \<in> set g. series_sum (map snd (filter (\<lambda>(k', v). k' = k) ?pr)) = Inr s"
    using groupby_sum_vals [OF g] by (auto simp: present_rows_zip)
  have A: "map (\<lambda>(k, s). map snd (filter (\<lambda>(k', v). k' = k) ?pr)) g =
        map (\<lambda>k. map snd (filter (\<lambda>(k', v). k' = k) ?pr)) (map fst g)"
    by (simp add: comp_def case_prod_unfold)
  have B: "mset (concat (map (\<lambda>k. map snd (filter (\<lambda>(k', v). k' = k) ?pr))
            (sort (remdups (map fst ?pr))))) =
        mset (map snd (filter (\<lambda>(k', v). k' \<in> set (sort (remdups (map fst ?pr)))) ?pr))"
    by (rule mset_groups) simp
  have C: "filter (\<lambda>(k', v). k' \<in> set (sort (remdups (map fst ?pr)))) ?pr = ?pr"
    by (rule filter_True) force
  show "mset (concat (map (\<lambda>(k, s). map snd (filter (\<lambda>(k', v). k' = k) ?pr)) g)) =
      mset (map snd ?pr)"
    by (simp only: A k B C)
qed

lemma valid_group_sum:
  assumes "valid_dataset df" and "key \<in> set REQUIRED_COLUMNS"
  shows "\<exists>ks qa g. column df key = Inr ks \<and> column df ''sale_amount'' = Inr (map Num qa) \<and>
           length ks = length qa \<and> group_sum df key = Inr g"
proof -
  from valid_summarize [OF assms(1)] obtain qa
    where qa: "column df ''sale_amount'' = Inr (map Num qa)" "length qa = nrows df"
    by blast
  from valid_dataset_required [OF assms] obtain ks where ks: "map_of df key = Some ks" by blast
  from assms(1) have "rectangular df" by (simp add: valid_dataset_def)
  from rectangular_length [OF this ks] qa(2) have len: "length ks = length qa" by simp
  have c: "column df key = Inr ks" by (simp add: column_def ks)
  have "\<exists>g. group_sum df key = Inr g"
    by (simp add: group_sum_def c qa present_rows_Num groupby_sum_Num del: map_map)
  with c qa(1) len show ?thesis by blast
qed

lemma daily_sales_Num:
  "daily_sales dates (map Num qs) =
     Inr (map (\<lambda>i. (sort (remdups dates) ! i,
                    Num (sum_list (map snd (filter (\<lambda>(d, q). d = sort (remdups dates) ! i)
                                             (zip dates qs)))),
                    i))
            [0..<length (remdups dates)])"
proof -
  let ?ks = "sort (remdups dates)"
  let ?g = "map (\<lambda>k. (k, Num (sum_list (map snd (filter (\<lambda>(k', v). k' = k) (zip dates qs)))))) ?ks"
  have g: "groupby_sum dates (map Num qs) = Inr ?g" by (rule groupby_sum_Num)
  have "sorted (map fst ?g)" by (simp add: comp_def)
  then have s: "sort_key fst ?g = ?g" by (rule sort_key_id_if_sorted)
  have "map (\<lambda>((d, a), i). (d, a, i)) (zip ?g [0..<length ?g]) =
        map (\<lambda>i. (?ks ! i, Num (sum_list (map snd (filter (\<lambda>(d, q). d = ?ks ! i) (zip dates qs)))), i))
            [0..<length (remdups dates)]"
    by (rule nth_equalityI) simp_all
  with g s show ?thesis
    unfolding daily_sales_def by (simp add: Let_def)
qed

lemma traverse_to_datetime: "traverse to_datetime (map Date ts) = Inr (map Some ts)"
  by (induction ts) simp_all

lemma traverse_as_float: "traverse as_float (map Num qs) = Inr qs"
  by (induction qs) (simp_all add: as_float_def)

lemma dated_rows_Some:
  "length ts = length xs \<Longrightarrow> dated_rows (map Some ts) xs = zip ts xs"
  unfolding dated_rows_def
  by (induction ts xs rule: list_induct2) simp_all

lemma forecast_Inr:
  assumes "forecast solver line df = Inr v"
  shows "\<exists>dc dates amounts.
     column df ''date'' = Inr dc \<and> traverse to_datetime dc = Inr dates \<and>
     column df ''sale_amount'' = Inr amounts \<and>
     daily_sales (map fst (dated_rows dates amounts)) (map snd (dated_rows dates amounts))
       = Inr (fc_daily_sales v)"
    and "fc_daily_sales v \<noteq> []"
    and "fit solver (map (\<lambda>(d, a, i). of_nat i) (fc_daily_sales v))
             (map (\<lambda>(d, a, i). a) (fc_daily_sales v)) = Inr (fc_model v)"
    and "fc_values v = map (line (fc_model v))
        (map of_nat [length (fc_daily_sales v)..<length (fc_daily_sales v) + future_days])"
    and "fc_dates v = date_range (fst (last (fc_daily_sales v)) + ns_per_day) future_days"
    and "fc_colors v = colors_of (fc_values v)"
    and "fc_segments v = segments_of (fc_dates v) (fc_values v) (fc_colors v)"
    and "fc_markers v = zip (fc_dates v) (zip (fc_values v) (fc_colors v))"
    and "fc_data v = zip (map day_of (fc_dates v)) (fc_values v)"
    and "summarize df = Inr (fc_summary v)"
    and "group_sum df ''area'' = Inr (fc_area_sales v)"
  using assms unfolding forecast_def Let_def
  by (auto simp: and_then_Inr_iff split: if_splits)

lemma day_of_add: "day_of (t + int k * ns_per_day) = day_of t + int k"
  by (simp add: day_of_def ns_per_day_def)

lemma forecast_values_nth:
  assumes "forecast solver line df = Inr v" and "k < 30"
  shows "fc_values v ! k = line (fc_model v) (of_nat (length (fc_daily_sales v) + k))"
    and "fc_dates v ! k = fst (last (fc_daily_sales v)) + (int k + 1) * ns_per_day"
    and "length (fc_values v) = 30" and "length (fc_dates v) = 30"
    and "length (fc_colors v) = 30"
  using forecast_Inr(4,5,6) [OF assms(1)] assms(2)
  by (auto simp: future_days_def date_range_def colors_of_def algebra_simps)

lemma forecast_total:
  assumes "valid_dataset df" and "0 < nrows df"
    and "\<forall>X ys. X \<noteq> [] \<longrightarrow> (\<exists>m. solver X ys = Inr m)"
  shows "\<exists>v. forecast solver line df = Inr v"
proof -
  from assms(1) have r: "rectangular df" and d: "column_all is_date df ''date''"
    by (simp_all add: valid_dataset_def)
  from d obtain ts where ts: "map_of df ''date'' = Some (map Date ts)"
    by (auto simp: column_all_def split: option.splits dest: is_date_conv)
  from rectangular_length [OF r ts] assms(2) have ne: "ts \<noteq> []" and lt: "length ts = nrows df"
    by auto
  from valid_summarize [OF assms(1)] obtain qa s
    where qa: "column df ''sale_amount'' = Inr (map Num qa)" and lq: "length qa = nrows df"
      and s: "summarize df = Inr s"
    by blast
  have "''area'' \<in> set REQUIRED_COLUMNS" by (simp add: REQUIRED_COLUMNS_def)
  from valid_group_sum [OF assms(1) this] obtain ar where ar: "group_sum df ''area'' = Inr ar"
    by blast
  have dr: "dated_rows (map Some ts) (map Num qa) = zip ts (map Num qa)"
    by (rule dated_rows_Some) (simp add: lt lq)
  have f: "map fst (zip ts (map Num qa)) = ts" and sn: "map snd (zip ts (map Num qa)) = map Num qa"
    by (simp_all add: lt lq)
  let ?ks = "sort (remdups ts)"
  let ?sum = "\<lambda>i. sum_list (map snd (filter (\<lambda>(d, q). d = ?ks ! i) (zip ts qa)))"
  let ?ds = "map (\<lambda>i. (?ks ! i, Num (?sum i), i)) [0..<length (remdups ts)]"
  have ds: "daily_sales ts (map Num qa) = Inr ?ds" by (rule daily_sales_Num)
  from ne have dne: "?ds \<noteq> []" by simp
  have y: "map (\<lambda>(d, a, i). a) ?ds = map Num (map ?sum [0..<length (remdups ts)])"
    by (simp add: comp_def)
  have x: "map (\<lambda>(d, a, i). of_nat i) ?ds \<noteq> ([] :: rat list)" using dne by simp
  from assms(3) x obtain m
    where "solver (map (\<lambda>(d, a, i). of_nat i) ?ds) (map ?sum [0..<length (remdups ts)]) = Inr m"
    by blast
  with x have m: "fit solver (map (\<lambda>(d, a, i). of_nat i) ?ds) (map (\<lambda>(d, a, i). a) ?ds) = Inr m"
    unfolding y fit_def by (simp add: traverse_as_float del: map_map)
  have c: "column df ''date'' = Inr (map Date ts)" by (simp add: column_def ts)
  show ?thesis
    unfolding forecast_def c
    by (simp only: and_then_Inr traverse_to_datetime qa dr f sn ds m Let_def dne if_False s ar) blast
qed

lemma field_total_num:
  "column_all is_num df c \<Longrightarrow> \<exists>q. field_total conv df c = conv (Num q)"
  using column_all_num [of df c] by (auto simp: field_total_def series_sum_Num)

lemma field_total_mixed:
  assumes "column_mixed df c"
  shows "field_total conv df c = Inl TypeError"
proof -
  from assms obtain xs where xs: "map_of df c = Some xs"
    and n: "list_ex is_num xs" and s: "list_ex is_str xs"
    by (auto simp: column_mixed_def split: option.splits)
  from n obtain x where x: "x \<in> set xs" "is_num x" by (auto simp: list_ex_iff)
  from x(2) have "\<exists>q. x = Num q" by (cases x) simp_all
  with x(1) obtain q where q: "Num q \<in> set xs" by blast
  from s obtain y where y: "y \<in> set xs" "is_str y" by (auto simp: list_ex_iff)
  from y(2) have "\<exists>t. y = Str t" by (cases y) simp_all
  with y(1) obtain t where t: "Str t \<in> set xs" by blast
  from series_sum_mixed [OF q t] xs show ?thesis by (simp add: field_total_def column_def)
qed

lemma field_total_text:
  "column df c = Inr (map Str ss) \<Longrightarrow> ss \<noteq> [] \<Longrightarrow>
   field_total conv df c = conv (Str (concat ss))"
  by (simp add: field_total_def series_sum_Str)









lemma Str_less_eq: "Str a \<le> Str b \<longleftrightarrow> a \<le> b" and Str_less: "Str a < Str b \<longleftrightarrow> a < b"
  by (simp_all add: less_eq_cell_def less_cell_def)

section \<open>Schema validation: properties\<close>

text \<open>
  C3. Validation succeeds exactly when the table's column names include the nine
  required names; it returns nothing, so the caller goes on with the table as it was.
  Otherwise the raised error names the set of all required columns that are absent;
  when only \<open>gst\<close> is absent, that set is \<open>{gst}\<close>.
\<close>

theorem validate_data_superset:
  "(validate_data df = Inr () \<longleftrightarrow> set REQUIRED_COLUMNS \<subseteq> set (columns df)) \<and>
   (\<not> set REQUIRED_COLUMNS \<subseteq> set (columns df) \<longrightarrow>
      validate_data df =
        Inl (ValueError (Missing_columns (set REQUIRED_COLUMNS - set (columns df))))) \<and>
   (set REQUIRED_COLUMNS - set (columns df) = {''gst''} \<longrightarrow>
      validate_data df = Inl (ValueError (Missing_columns {''gst''})))"
  by (auto simp: validate_data_def Let_def)

theorem validate_data_superset_witness:
  "set REQUIRED_COLUMNS -
     set (columns [(''date'', [Date 0]), (''month'', [Str ''Jan'']), (''area'', [Str ''N'']),
                   (''product'', [Str ''P'']), (''sale_count'', [Num 1]),
                   (''sale_amount'', [Num 100]), (''net_value'', [Num 90]),
                   (''profit'', [Num 10])]) = {''gst''} \<and>
   validate_data [(''date'', [Date 0]), (''month'', [Str ''Jan'']), (''area'', [Str ''N'']),
                   (''product'', [Str ''P'']), (''sale_count'', [Num 1]),
                   (''sale_amount'', [Num 100]), (''net_value'', [Num 90]),
                   (''profit'', [Num 10])] = Inl (ValueError (Missing_columns {''gst''}))"
proof -
  let ?df = "[(''date'', [Date 0]), (''month'', [Str ''Jan'']), (''area'', [Str ''N'']),
                   (''product'', [Str ''P'']), (''sale_count'', [Num 1]),
                   (''sale_amount'', [Num 100]), (''net_value'', [Num 90]),
                   (''profit'', [Num 10])] :: dataframe"
  have h: "set REQUIRED_COLUMNS - set (columns ?df) = {''gst''}"
    by (auto simp: REQUIRED_COLUMNS_def columns_def)
  from validate_data_superset [of ?df] h
  have "validate_data ?df = Inl (ValueError (Missing_columns {''gst''}))" by blast
  with h show ?thesis by blast
qed

section \<open>Aggregation: properties\<close>

text \<open>
  C7 (as amended). For a valid Dataset and each of the grouping keys \<open>area\<close>,
  \<open>month\<close>, \<open>product\<close>, \<^verbatim>\<open>group_sum\<close> returns one entry per distinct key value that is
  present; the value of an entry is the \<^verbatim>\<open>sum()\<close> of the \<open>sale_amount\<close> of exactly the rows
  that carry its key; taken together the rows of the groups are the rows with a present
  key, each once, and all rows when no key is missing. Rows with a missing key are in
  no group. Nothing is stated about re-adding the group values: they are float64 sums
  of different groupings of the same amounts.
\<close>

theorem group_sum_partition:
  assumes "valid_dataset df" and "key \<in> {''area'', ''month'', ''product''}"
  shows "\<exists>keys vals g.
     column df key = Inr keys \<and> column df ''sale_amount'' = Inr vals \<and>
     length keys = length vals \<and> group_sum df key = Inr g \<and>
     map fst g = sort (remdups (filter (\<lambda>k. k \<noteq> Missing) keys)) \<and>
     (\<forall>(k, s) \<in> set g. k \<noteq> Missing \<and>
        series_sum (map snd (filter (\<lambda>(k', v). k' = k) (zip keys vals))) = Inr s) \<and>
     mset (concat (map (\<lambda>(k, s). map snd (filter (\<lambda>(k', v). k' = k) (zip keys vals))) g)) =
       mset (map snd (present_rows keys vals)) \<and>
     (Missing \<notin> set keys \<longrightarrow>
        mset (concat (map (\<lambda>(k, s). map snd (filter (\<lambda>(k', v). k' = k) (zip keys vals))) g)) =
          mset vals)"
proof -
  from assms(2) have "key \<in> set REQUIRED_COLUMNS" by (auto simp: REQUIRED_COLUMNS_def)
  from valid_group_sum [OF assms(1) this] obtain ks qa g
    where k: "column df key = Inr ks" and v: "column df ''sale_amount'' = Inr (map Num qa)"
      and len: "length ks = length (map Num qa)" and g: "group_sum df key = Inr g"
    by auto
  let ?vals = "map Num qa"
  note rows = group_sum_rows [OF k v g]
  have keys: "map fst g = sort (remdups (filter (\<lambda>k. k \<noteq> Missing) ks))"
    using rows(1) len by (simp add: present_rows_keys)
  have nm: "k' \<noteq> Missing" if "(k', s) \<in> set g" for k' s
  proof -
    from that have "k' \<in> set (map fst g)" by force
    then show ?thesis by (simp add: keys)
  qed
  have sums: "\<forall>(k, s) \<in> set g. k \<noteq> Missing \<and>
        series_sum (map snd (filter (\<lambda>(k', v). k' = k) (zip ks ?vals))) = Inr s"
    using rows(2) nm by (auto simp: present_rows_filter)
  have eq: "map (\<lambda>(k, s). map snd (filter (\<lambda>(k', v). k' = k) (zip ks ?vals))) g =
        map (\<lambda>(k, s). map snd (filter (\<lambda>(k', v). k' = k) (present_rows ks ?vals))) g"
    by (rule map_cong) (auto simp: present_rows_filter dest: nm)
  have part: "mset (concat (map (\<lambda>(k, s). map snd (filter (\<lambda>(k', v). k' = k) (zip ks ?vals))) g)) =
       mset (map snd (present_rows ks ?vals))"
    unfolding eq by (rule rows(3))
  have all: "mset (concat (map (\<lambda>(k, s). map snd (filter (\<lambda>(k', v). k' = k) (zip ks ?vals))) g)) =
          mset ?vals" if "Missing \<notin> set ks"
    using part len by (simp add: present_rows_all [OF that] del: mset_map)
  from k v len g keys sums part all show ?thesis by blast
qed

theorem group_sum_partition_witness:
  "valid_dataset sample_table \<and> ''area'' \<in> {''area'', ''month'', ''product''} \<and>
   group_sum sample_table ''area'' = Inr [(Str ''North'', Num 100), (Str ''South'', Num 200)] \<and>
   mset (concat (map (\<lambda>(k, s). map snd (filter (\<lambda>(k', v). k' = k)
      (zip [Str ''South'', Str ''North'', Str ''South''] [Num 150, Num 100, Num 50])))
      [(Str ''North'', Num 100), (Str ''South'', Num 200)])) = mset [Num 150, Num 100, Num 50]"
proof -
  have h: "valid_dataset sample_table" by code_simp
  have k: "''area'' \<in> {''area'', ''month'', ''product''}" by simp
  have e: "group_sum sample_table ''area'' =
      Inr [(Str ''North'', Num 100), (Str ''South'', Num 200)]" by code_simp
  have ck: "column sample_table ''area'' = Inr [Str ''South'', Str ''North'', Str ''South'']"
    and cv: "column sample_table ''sale_amount'' = Inr [Num 150, Num 100, Num 50]"
    by (simp_all add: sample_table_def column_def)
  from group_sum_partition [OF h k] obtain keys vals g
    where "column sample_table ''area'' = Inr keys"
      and "column sample_table ''sale_amount'' = Inr vals"
      and "group_sum sample_table ''area'' = Inr g"
      and "Missing \<notin> set keys \<longrightarrow>
        mset (concat (map (\<lambda>(k, s). map snd (filter (\<lambda>(k', v). k' = k) (zip keys vals))) g)) =
          mset vals"
    by blast
  with e ck cv
  have "mset (concat (map (\<lambda>(k, s). map snd (filter (\<lambda>(k', v). k' = k)
      (zip [Str ''South'', Str ''North'', Str ''South''] [Num 150, Num 100, Num 50])))
      [(Str ''North'', Num 100), (Str ''South'', Num 200)])) = mset [Num 150, Num 100, Num 50]"
    by auto
  with h k e show ?thesis by blast
qed

text \<open>
  The claim as written fails on a valid table with a blank area cell: the groups add
  up to 400, the total sales are 600.
\<close>

theorem group_sum_blank_key_counterexample:
  "valid_dataset blank_area_table \<and>
   group_sum blank_area_table ''area'' = Inr [(Str ''North'', Num 400)] \<and>
   summarize blank_area_table =
     Inr \<lparr>total_sales = Finite 600, total_profit = Finite 20, total_units = 2,
          total_gst = Finite 10\<rparr>"
  by code_simp

text \<open>
  C10. For a valid Dataset and each grouping key, the entries of \<^verbatim>\<open>group_sum\<close> are the
  distinct present values of the key column in strictly ascending order (texts compare
  lexicographically by character code, see \<open>Str_less_eq\<close>). The result is a function
  of the table, so two runs on the same table give the same ordered list.
\<close>

theorem group_sum_sorted:
  assumes "valid_dataset df" and "key \<in> {''area'', ''month'', ''product''}"
  shows "\<exists>g keys. column df key = Inr keys \<and> group_sum df key = Inr g \<and>
           map fst g = sort (remdups (filter (\<lambda>k. k \<noteq> Missing) keys)) \<and>
           sorted_wrt (<) (map fst g)"
proof -
  from assms(2) have "key \<in> set REQUIRED_COLUMNS" by (auto simp: REQUIRED_COLUMNS_def)
  from valid_group_sum [OF assms(1) this] obtain ks qa g
    where k: "column df key = Inr ks" and v: "column df ''sale_amount'' = Inr (map Num qa)"
      and len: "length ks = length qa" and g: "group_sum df key = Inr g"
    by blast
  from group_sum_rows(1) [OF k v g] len
  have m: "map fst g = sort (remdups (filter (\<lambda>k. k \<noteq> Missing) ks))"
    by (simp add: present_rows_keys)
  then have "sorted_wrt (<) (map fst g)" by (simp only: strict_sorted_iff) simp
  with k g m show ?thesis by blast
qed

theorem group_sum_sorted_witness:
  "valid_dataset sample_table \<and> ''product'' \<in> {''area'', ''month'', ''product''} \<and>
   group_sum sample_table ''product'' = Inr [(Str ''Ink'', Num 150), (Str ''Pen'', Num 150)] \<and>
   sorted_wrt (<) [Str ''Ink'', Str ''Pen'']"
proof -
  have h: "valid_dataset sample_table" by code_simp
  have k: "''product'' \<in> {''area'', ''month'', ''product''}" by simp
  have e: "group_sum sample_table ''product'' =
      Inr [(Str ''Ink'', Num 150), (Str ''Pen'', Num 150)]" by code_simp
  from group_sum_sorted [OF h k] obtain g
    where "group_sum sample_table ''product'' = Inr g" and "sorted_wrt (<) (map fst g)"
    by blast
  with e have "sorted_wrt (<) [Str ''Ink'', Str ''Pen'']" by auto
  with h k e show ?thesis by blast
qed

text \<open>
  C9 (as amended). \<^verbatim>\<open>summarize\<close> has no type check of its own: each total is
  \<^verbatim>\<open>float\<close> or \<^verbatim>\<open>int\<close> of the column's \<^verbatim>\<open>sum()\<close>. When each of the four summed columns
  holds numbers only or both numbers and text, and at least one holds both, the
  addition raises \<^verbatim>\<open>TypeError\<close>. When a column holds text only, its total is the
  conversion of the concatenated texts: a \<^verbatim>\<open>ValueError\<close> when the concatenation does not
  read as a number, and otherwise the number it reads as (\<open>10\<close> and \<open>20\<close> give 1020).
  \<^verbatim>\<open>summarize\<close> returns a Summary exactly when all four totals are computed, and
  otherwise raises the error of the first failing total in the order \<open>sale_amount\<close>,
  \<open>profit\<close>, \<open>sale_count\<close>, \<open>gst\<close>. No text is replaced by zero.
\<close>

theorem summarize_text_in_numeric_column:
  "(list_all (\<lambda>c. column_all is_num df c \<or> column_mixed df c)
       [''sale_amount'', ''profit'', ''sale_count'', ''gst''] \<and>
    list_ex (column_mixed df) [''sale_amount'', ''profit'', ''sale_count'', ''gst'']
    \<longrightarrow> summarize df = Inl TypeError) \<and>
   (column df c = Inr (map Str ss) \<and> ss \<noteq> [] \<longrightarrow>
      field_total py_float df c =
        (case float_of_text (concat ss) of
           None \<Rightarrow> Inl (ValueError (Could_not_convert (concat ss))) | Some x \<Rightarrow> Inr x) \<and>
      field_total py_int df c =
        (case int_of_text (concat ss) of
           None \<Rightarrow> Inl (ValueError (Could_not_convert (concat ss))) | Some n \<Rightarrow> Inr n)) \<and>
   (summarize df = Inr s \<longleftrightarrow>
      field_total py_float df ''sale_amount'' = Inr (total_sales s) \<and>
      field_total py_float df ''profit'' = Inr (total_profit s) \<and>
      field_total py_int df ''sale_count'' = Inr (total_units s) \<and>
      field_total py_float df ''gst'' = Inr (total_gst s)) \<and>
   (summarize df = Inl e \<longleftrightarrow>
      field_total py_float df ''sale_amount'' = Inl e \<or>
      (\<exists>a. field_total py_float df ''sale_amount'' = Inr a) \<and>
      (field_total py_float df ''profit'' = Inl e \<or>
       (\<exists>p. field_total py_float df ''profit'' = Inr p) \<and>
       (field_total py_int df ''sale_count'' = Inl e \<or>
        (\<exists>u. field_total py_int df ''sale_count'' = Inr u) \<and>
        field_total py_float df ''gst'' = Inl e)))"
proof (intro conjI)
  show "list_all (\<lambda>c. column_all is_num df c \<or> column_mixed df c)
       [''sale_amount'', ''profit'', ''sale_count'', ''gst''] \<and>
    list_ex (column_mixed df) [''sale_amount'', ''profit'', ''sale_count'', ''gst'']
    \<longrightarrow> summarize df = Inl TypeError"
  proof
    assume a: "list_all (\<lambda>c. column_all is_num df c \<or> column_mixed df c)
         [''sale_amount'', ''profit'', ''sale_count'', ''gst''] \<and>
      list_ex (column_mixed df) [''sale_amount'', ''profit'', ''sale_count'', ''gst'']"
    have rf: "(\<exists>x. field_total py_float df c = Inr x) \<or> field_total py_float df c = Inl TypeError"
      if "column_all is_num df c \<or> column_mixed df c" for c
      using that field_total_num [of df c py_float] field_total_mixed [of df c py_float]
      by auto
    have ri: "(\<exists>x. field_total py_int df c = Inr x) \<or> field_total py_int df c = Inl TypeError"
      if "column_all is_num df c \<or> column_mixed df c" for c
      using that field_total_num [of df c py_int] field_total_mixed [of df c py_int]
      by auto
    from a have r1: "(\<exists>x. field_total py_float df ''sale_amount'' = Inr x) \<or>
           field_total py_float df ''sale_amount'' = Inl TypeError"
      and r2: "(\<exists>x. field_total py_float df ''profit'' = Inr x) \<or>
           field_total py_float df ''profit'' = Inl TypeError"
      and r3: "(\<exists>x. field_total py_int df ''sale_count'' = Inr x) \<or>
           field_total py_int df ''sale_count'' = Inl TypeError"
      and r4: "(\<exists>x. field_total py_float df ''gst'' = Inr x) \<or>
           field_total py_float df ''gst'' = Inl TypeError"
      by (simp_all add: rf ri)
    from a have "column_mixed df ''sale_amount'' \<or> column_mixed df ''profit'' \<or>
        column_mixed df ''sale_count'' \<or> column_mixed df ''gst''" by simp
    then have m: "field_total py_float df ''sale_amount'' = Inl TypeError \<or>
        field_total py_float df ''profit'' = Inl TypeError \<or>
        field_total py_int df ''sale_count'' = Inl TypeError \<or>
        field_total py_float df ''gst'' = Inl TypeError"
      using field_total_mixed [of df _ py_float] field_total_mixed [of df _ py_int] by blast
    from r1 r2 r3 r4 m show "summarize df = Inl TypeError"
      unfolding summarize_def by (elim disjE exE) simp_all
  qed
next
  show "column df c = Inr (map Str ss) \<and> ss \<noteq> [] \<longrightarrow>
      field_total py_float df c =
        (case float_of_text (concat ss) of
           None \<Rightarrow> Inl (ValueError (Could_not_convert (concat ss))) | Some x \<Rightarrow> Inr x) \<and>
      field_total py_int df c =
        (case int_of_text (concat ss) of
           None \<Rightarrow> Inl (ValueError (Could_not_convert (concat ss))) | Some n \<Rightarrow> Inr n)"
    by (auto simp: field_total_text split: option.splits)
next
  show "summarize df = Inr s \<longleftrightarrow>
      field_total py_float df ''sale_amount'' = Inr (total_sales s) \<and>
      field_total py_float df ''profit'' = Inr (total_profit s) \<and>
      field_total py_int df ''sale_count'' = Inr (total_units s) \<and>
      field_total py_float df ''gst'' = Inr (total_gst s)"
    unfolding summarize_def by (cases s) (auto simp: and_then_Inr_iff)
next
  show "summarize df = Inl e \<longleftrightarrow>
      field_total py_float df ''sale_amount'' = Inl e \<or>
      (\<exists>a. field_total py_float df ''sale_amount'' = Inr a) \<and>
      (field_total py_float df ''profit'' = Inl e \<or>
       (\<exists>p. field_total py_float df ''profit'' = Inr p) \<and>
       (field_total py_int df ''sale_count'' = Inl e \<or>
        (\<exists>u. field_total py_int df ''sale_count'' = Inr u) \<and>
        field_total py_float df ''gst'' = Inl e))"
    unfolding summarize_def and_then_def by (auto split: sum.splits)
qed

theorem summarize_text_in_numeric_column_witness:
  "(list_all (\<lambda>c. column_all is_num mixed_amount_table c \<or> column_mixed mixed_amount_table c)
       [''sale_amount'', ''profit'', ''sale_count'', ''gst''] \<and>
    list_ex (column_mixed mixed_amount_table) [''sale_amount'', ''profit'', ''sale_count'', ''gst''] \<and>
    summarize mixed_amount_table = Inl TypeError) \<and>
   (column number_text_table ''sale_amount'' = Inr (map Str [''10'', ''20'']) \<and>
    [''10'', ''20''] \<noteq> [] \<and>
    field_total py_float number_text_table ''sale_amount'' = Inr (Finite 1020)) \<and>
   (column number_text_table ''profit'' = Inr (map Str [''abc'', ''def'']) \<and>
    summarize number_text_table = Inl (ValueError (Could_not_convert ''abcdef'')))"
proof -
  have a: "list_all (\<lambda>c. column_all is_num mixed_amount_table c \<or> column_mixed mixed_amount_table c)
       [''sale_amount'', ''profit'', ''sale_count'', ''gst''] \<and>
    list_ex (column_mixed mixed_amount_table) [''sale_amount'', ''profit'', ''sale_count'', ''gst'']"
    by (simp add: mixed_amount_table_def column_all_def column_mixed_def)
  from summarize_text_in_numeric_column [of mixed_amount_table] a
  have c: "summarize mixed_amount_table = Inl TypeError" by blast
  have b1: "column number_text_table ''sale_amount'' = Inr (map Str [''10'', ''20'']) \<and>
      [''10'', ''20''] \<noteq> []"
    by (simp add: number_text_table_def column_def)
  have f1: "float_of_text (concat [''10'', ''20'']) = Some (Finite 1020)" by code_simp
  from summarize_text_in_numeric_column [of number_text_table "''sale_amount''" "[''10'', ''20'']"] b1
  have "field_total py_float number_text_table ''sale_amount'' =
        (case float_of_text (concat [''10'', ''20'']) of
           None \<Rightarrow> Inl (ValueError (Could_not_convert (concat [''10'', ''20'']))) | Some x \<Rightarrow> Inr x)"
    by blast
  with f1 have d1: "field_total py_float number_text_table ''sale_amount'' = Inr (Finite 1020)"
    by simp
  have b2: "column number_text_table ''profit'' = Inr (map Str [''abc'', ''def'']) \<and>
      [''abc'', ''def''] \<noteq> []"
    by (simp add: number_text_table_def column_def)
  have f2: "float_of_text (concat [''abc'', ''def'']) = None" by code_simp
  from summarize_text_in_numeric_column [of number_text_table "''profit''" "[''abc'', ''def'']"] b2
  have "field_total py_float number_text_table ''profit'' =
        (case float_of_text (concat [''abc'', ''def'']) of
           None \<Rightarrow> Inl (ValueError (Could_not_convert (concat [''abc'', ''def'']))) | Some x \<Rightarrow> Inr x)"
    by blast
  with f2 have d2: "field_total py_float number_text_table ''profit'' =
      Inl (ValueError (Could_not_convert ''abcdef''))"
    by simp
  from summarize_text_in_numeric_column
    [of number_text_table _ _ _ "ValueError (Could_not_convert ''abcdef'')"] d1 d2
  have e: "summarize number_text_table = Inl (ValueError (Could_not_convert ''abcdef''))"
    by blast
  from a c b1 d1 b2 e show ?thesis by blast
qed

text \<open>
  The claim as written fails on a table that passes validation and whose
  \<open>sale_amount\<close> column is the single text \<open>abc\<close>: the error is a \<^verbatim>\<open>ValueError\<close> from
  \<^verbatim>\<open>float\<close>, not a \<^verbatim>\<open>TypeError\<close>.
\<close>

theorem summarize_text_counterexample:
  "validate_data text_amount_table = Inr () \<and>
   summarize text_amount_table = Inl (ValueError (Could_not_convert ''abc'')) \<and>
   summarize text_amount_table \<noteq> Inl TypeError"
  by code_simp

section \<open>Interchange form: properties\<close>




section \<open>Daily series: properties\<close>

text \<open>
  C2 (as amended). For every date column and numeric amounts, the daily series has
  one entry per distinct date value (a timestamp, time of day included), in strictly
  ascending order of that value; the \<open>day\<close> of an entry is its position, so the days
  are \<open>0, 1, \<dots>, N - 1\<close> whatever calendar days are skipped; and the amount of an entry
  is the sum of the amounts of the rows that carry exactly its date value.
\<close>

theorem daily_sales_by_date_value:
  "\<exists>ds. daily_sales dates (map Num qs) = Inr ds \<and>
      map fst ds = sort (remdups dates) \<and>
      sorted_wrt (<) (map fst ds) \<and>
      map (\<lambda>(d, a, i). i) ds = [0..<length ds] \<and>
      (\<forall>i<length ds.
         fst (snd (ds ! i)) =
           Num (sum_list (map snd (filter (\<lambda>(d, q). d = fst (ds ! i)) (zip dates qs)))))"
proof -
  let ?ks = "sort (remdups dates)"
  let ?ds = "map (\<lambda>i. (?ks ! i,
                    Num (sum_list (map snd (filter (\<lambda>(d, q). d = ?ks ! i) (zip dates qs)))),
                    i))
            [0..<length (remdups dates)]"
  have a: "daily_sales dates (map Num qs) = Inr ?ds" by (rule daily_sales_Num)
  have b: "map fst ?ds = ?ks" by (rule nth_equalityI) simp_all
  have c: "sorted_wrt (<) (map fst ?ds)" unfolding b by (simp add: strict_sorted_iff)
  have d: "map (\<lambda>(d, a, i). i) ?ds = [0..<length ?ds]" by (rule nth_equalityI) simp_all
  have e: "\<forall>i<length ?ds. fst (snd (?ds ! i)) =
           Num (sum_list (map snd (filter (\<lambda>(d, q). d = fst (?ds ! i)) (zip dates qs))))"
    by simp
  from a b c d e show ?thesis by blast
qed

theorem daily_sales_by_date_value_witness:
  "daily_sales [259200000000000, 86400000000000, 259200000000000] (map Num [150, 100, 50]) =
     Inr [(86400000000000, Num 100, 0), (259200000000000, Num 200, 1)] \<and>
   map (\<lambda>(d, a, i). i) [(86400000000000 :: int, Num 100, 0 :: nat), (259200000000000, Num 200, 1)] =
     [0..<length [(86400000000000 :: int, Num 100, 0 :: nat), (259200000000000, Num 200, 1)]] \<and>
   (1 :: nat) < length [(86400000000000 :: int, Num 100, 0 :: nat), (259200000000000, Num 200, 1)] \<and>
   fst (snd ([(86400000000000 :: int, Num 100, 0 :: nat), (259200000000000, Num 200, 1)] ! 1)) =
     Num (sum_list (map snd (filter (\<lambda>(d, q). d = 259200000000000)
        (zip [259200000000000, 86400000000000, 259200000000000 :: int] [150, 100, 50]))))"
proof -
  let ?dates = "[259200000000000, 86400000000000, 259200000000000] :: int list"
  let ?qs = "[150, 100, 50] :: rat list"
  let ?ds = "[(86400000000000 :: int, Num 100, 0 :: nat), (259200000000000, Num 200, 1)]"
  have e: "daily_sales ?dates (map Num ?qs) = Inr ?ds"
    by (simp add: daily_sales_def groupby_sum_def series_sum_def)
  from daily_sales_by_date_value [of ?dates ?qs] obtain ds
    where d: "daily_sales ?dates (map Num ?qs) = Inr ds"
      and i: "map (\<lambda>(d, a, i). i) ds = [0..<length ds]"
      and a: "\<forall>i<length ds. fst (snd (ds ! i)) =
           Num (sum_list (map snd (filter (\<lambda>(d, q). d = fst (ds ! i)) (zip ?dates ?qs))))"
    by blast
  from d e have eq: "ds = ?ds" by simp
  have l: "(1 :: nat) < length ?ds" by simp
  from a eq l have "fst (snd (?ds ! 1)) =
      Num (sum_list (map snd (filter (\<lambda>(d, q). d = fst (?ds ! 1)) (zip ?dates ?qs))))"
    by blast
  then have "fst (snd (?ds ! 1)) =
      Num (sum_list (map snd (filter (\<lambda>(d, q). d = 259200000000000) (zip ?dates ?qs))))"
    by simp
  with e i eq l show ?thesis by blast
qed

text \<open>
  The claim as written (same-day rows are summed into one entry) fails for two rows
  on the same calendar day at different times: midnight and one hour later stay two
  entries.
\<close>

theorem daily_sales_same_day_counterexample:
  "daily_sales [0, 3600000000000] [Num 100, Num 200] =
     Inr [(0, Num 100, 0), (3600000000000, Num 200, 1)] \<and>
   day_of 0 = day_of 3600000000000"
  by (simp add: daily_sales_def groupby_sum_def series_sum_def day_of_def ns_per_day_def)

section \<open>Forecast: properties\<close>

text \<open>
  C1. For every regression (\<open>solver\<close>, \<open>line\<close>): a valid Dataset with at least one
  row is forecast without error when the solver returns a model on every non-empty
  sample. Whenever \<^verbatim>\<open>forecast\<close> returns, its daily series is the daily series of the
  table's date and \<open>sale_amount\<close> columns and its model is the fit of that series on
  the days \<open>0, \<dots>, N - 1\<close>; the series is non-empty and, with \<open>last\<close> its last date,
  there are exactly 30 forecast points; point \<open>k\<close> (from 0) has the date \<open>last\<close> plus
  \<open>k + 1\<close> days and the value of the fitted line at \<open>N + k\<close>; the printed calendar days
  are strictly ascending.
\<close>

theorem forecast_points:
  "(valid_dataset df \<and> 0 < nrows df \<and> (\<forall>X ys. X \<noteq> [] \<longrightarrow> (\<exists>m. solver X ys = Inr m))
      \<longrightarrow> (\<exists>v. forecast solver line df = Inr v)) \<and>
   (forecast solver line df = Inr v \<longrightarrow>
      (\<exists>dc dates amounts.
         column df ''date'' = Inr dc \<and> traverse to_datetime dc = Inr dates \<and>
         column df ''sale_amount'' = Inr amounts \<and>
         daily_sales (map fst (dated_rows dates amounts)) (map snd (dated_rows dates amounts))
           = Inr (fc_daily_sales v)) \<and>
      fit solver (map (\<lambda>(d, a, i). of_nat i) (fc_daily_sales v))
                 (map (\<lambda>(d, a, i). a) (fc_daily_sales v)) = Inr (fc_model v) \<and>
      fc_daily_sales v \<noteq> [] \<and> length (fc_data v) = 30 \<and>
      (\<forall>k<30. fc_dates v ! k = fst (last (fc_daily_sales v)) + (int k + 1) * ns_per_day \<and>
               fc_data v ! k =
                 (day_of (fst (last (fc_daily_sales v))) + (int k + 1),
                  line (fc_model v) (of_nat (length (fc_daily_sales v) + k)))) \<and>
      sorted_wrt (<) (map fst (fc_data v)))"
proof (rule conjI)
  show "valid_dataset df \<and> 0 < nrows df \<and> (\<forall>X ys. X \<noteq> [] \<longrightarrow> (\<exists>m. solver X ys = Inr m))
      \<longrightarrow> (\<exists>v. forecast solver line df = Inr v)"
    using forecast_total [of df solver line] by blast
next
  show "forecast solver line df = Inr v \<longrightarrow>
      (\<exists>dc dates amounts.
         column df ''date'' = Inr dc \<and> traverse to_datetime dc = Inr dates \<and>
         column df ''sale_amount'' = Inr amounts \<and>
         daily_sales (map fst (dated_rows dates amounts)) (map snd (dated_rows dates amounts))
           = Inr (fc_daily_sales v)) \<and>
      fit solver (map (\<lambda>(d, a, i). of_nat i) (fc_daily_sales v))
                 (map (\<lambda>(d, a, i). a) (fc_daily_sales v)) = Inr (fc_model v) \<and>
      fc_daily_sales v \<noteq> [] \<and> length (fc_data v) = 30 \<and>
      (\<forall>k<30. fc_dates v ! k = fst (last (fc_daily_sales v)) + (int k + 1) * ns_per_day \<and>
               fc_data v ! k =
                 (day_of (fst (last (fc_daily_sales v))) + (int k + 1),
                  line (fc_model v) (of_nat (length (fc_daily_sales v) + k)))) \<and>
      sorted_wrt (<) (map fst (fc_data v))"
  proof
    assume a: "forecast solver line df = Inr v"
    let ?last = "fst (last (fc_daily_sales v))"
    note tbl = forecast_Inr(1) [OF a]
    note fitted = forecast_Inr(3) [OF a]
    have ne: "fc_daily_sales v \<noteq> []" by (rule forecast_Inr(2) [OF a])
    have data: "fc_data v = zip (map day_of (fc_dates v)) (fc_values v)"
      by (rule forecast_Inr(9) [OF a])
    have lv: "length (fc_values v) = 30" and ld: "length (fc_dates v) = 30"
      using forecast_values_nth(3,4) [OF a, of 0] by simp_all
    have len: "length (fc_data v) = 30" by (simp add: data lv ld)
    have nth: "fc_dates v ! k = ?last + (int k + 1) * ns_per_day \<and>
          fc_data v ! k = (day_of ?last + (int k + 1),
             line (fc_model v) (of_nat (length (fc_daily_sales v) + k)))" if "k < 30" for k
    proof -
      have d: "fc_dates v ! k = ?last + (int k + 1) * ns_per_day"
        by (rule forecast_values_nth(2) [OF a that])
      have "day_of (fc_dates v ! k) = day_of ?last + (int k + 1)"
        using day_of_add [of ?last "Suc k"] by (simp add: d algebra_simps)
      with d that show ?thesis
        by (simp add: data lv ld forecast_values_nth(1) [OF a that])
    qed
    have "map fst (fc_data v) = map (\<lambda>k. day_of ?last + (int k + 1)) [0..<30]"
      by (rule nth_equalityI) (simp_all add: len nth)
    moreover have "sorted_wrt (<) (map (\<lambda>k. day_of ?last + (int k + 1)) [0..<30])"
      by (simp add: sorted_wrt_map sorted_wrt_iff_nth_less)
    ultimately have srt: "sorted_wrt (<) (map fst (fc_data v))" by simp
    from tbl fitted ne len nth srt show "(\<exists>dc dates amounts.
         column df ''date'' = Inr dc \<and> traverse to_datetime dc = Inr dates \<and>
         column df ''sale_amount'' = Inr amounts \<and>
         daily_sales (map fst (dated_rows dates amounts)) (map snd (dated_rows dates amounts))
           = Inr (fc_daily_sales v)) \<and>
      fit solver (map (\<lambda>(d, a, i). of_nat i) (fc_daily_sales v))
                 (map (\<lambda>(d, a, i). a) (fc_daily_sales v)) = Inr (fc_model v) \<and>
      fc_daily_sales v \<noteq> [] \<and> length (fc_data v) = 30 \<and>
      (\<forall>k<30. fc_dates v ! k = ?last + (int k + 1) * ns_per_day \<and>
               fc_data v ! k =
                 (day_of ?last + (int k + 1),
                  line (fc_model v) (of_nat (length (fc_daily_sales v) + k)))) \<and>
      sorted_wrt (<) (map fst (fc_data v))"
      by blast
  qed
qed

theorem forecast_points_witness:
  "valid_dataset sample_table \<and> 0 < nrows sample_table \<and>
   forecast exact_solver exact_line sample_table =
     Inr (projr (forecast exact_solver exact_line sample_table)) \<and>
   fc_daily_sales (projr (forecast exact_solver exact_line sample_table)) =
     [(86400000000000, Num 100, 0), (259200000000000, Num 200, 1)] \<and>
   length (fc_data (projr (forecast exact_solver exact_line sample_table))) = 30 \<and>
   fc_data (projr (forecast exact_solver exact_line sample_table)) ! 0 =
     (4, exact_line (fc_model (projr (forecast exact_solver exact_line sample_table))) 2) \<and>
   fst (fc_data (projr (forecast exact_solver exact_line sample_table)) ! 29) = 33"
proof -
  let ?v = "projr (forecast exact_solver exact_line sample_table)"
  have h: "valid_dataset sample_table \<and> 0 < nrows sample_table" by code_simp
  have t: "\<forall>X ys. X \<noteq> [] \<longrightarrow> (\<exists>m. exact_solver X ys = Inr m)"
    by (simp add: exact_solver_def Let_def)
  from forecast_points [of sample_table exact_solver exact_line ?v] h t
  have "\<exists>v. forecast exact_solver exact_line sample_table = Inr v" by blast
  then have r: "forecast exact_solver exact_line sample_table = Inr ?v" by auto
  from forecast_points [of sample_table exact_solver exact_line ?v] r
  have tbl: "\<exists>dc dates amounts.
         column sample_table ''date'' = Inr dc \<and> traverse to_datetime dc = Inr dates \<and>
         column sample_table ''sale_amount'' = Inr amounts \<and>
         daily_sales (map fst (dated_rows dates amounts)) (map snd (dated_rows dates amounts))
           = Inr (fc_daily_sales ?v)"
    and len: "length (fc_data ?v) = 30"
    and nth: "\<forall>k<30. fc_data ?v ! k =
                 (day_of (fst (last (fc_daily_sales ?v))) + (int k + 1),
                  exact_line (fc_model ?v) (of_nat (length (fc_daily_sales ?v) + k)))"
    by blast+
  from tbl have d: "fc_daily_sales ?v =
      [(86400000000000, Num 100, 0), (259200000000000, Num 200, 1)]"
    by (auto simp: sample_table_def column_def dated_rows_def daily_sales_def groupby_sum_def
        series_sum_def)
  from nth have "fc_data ?v ! 0 = (4, exact_line (fc_model ?v) 2)"
    by (simp add: d day_of_def ns_per_day_def)
  moreover from nth have "fst (fc_data ?v ! 29) = 33"
    by (simp add: d day_of_def ns_per_day_def)
  ultimately show ?thesis using h r d len by blast
qed

text \<open>
  C5 (as amended). Whenever \<^verbatim>\<open>forecast\<close> returns, the chart has 29 segments between
  consecutive forecast points and 30 markers. Segment \<open>i\<close> runs from point \<open>i\<close> to
  point \<open>i + 1\<close> and has the color computed for point \<open>i\<close>: green exactly when
  \<open>i = 0\<close> or the value of point \<open>i\<close> is at least that of point \<open>i - 1\<close>; the marker of
  point \<open>i\<close> has the same color. When the values never fall, or fall at every step,
  this is the segment's own trend: green exactly when \<open>i = 0\<close> or its end value is at
  least its start value.
\<close>

theorem forecast_segment_colors:
  assumes "forecast solver line df = Inr v"
  shows "length (fc_segments v) = 29 \<and> length (fc_markers v) = 30 \<and>
     (\<forall>i<29. \<exists>d0 y0 d1 y1 c.
         fc_segments v ! i = ((d0, y0), (d1, y1), c) \<and>
         y0 = fc_values v ! i \<and> y1 = fc_values v ! Suc i \<and>
         (c = Green \<longleftrightarrow> i = 0 \<or> fc_values v ! (i - 1) \<le> y0) \<and>
         fc_markers v ! i = (d0, y0, c)) \<and>
     (\<forall>i<30. \<exists>d y c. fc_markers v ! i = (d, y, c) \<and> c = fc_colors v ! i \<and>
         (c = Green \<longleftrightarrow> i = 0 \<or> fc_values v ! (i - 1) \<le> y)) \<and>
     ((\<forall>i<29. fc_values v ! i \<le> fc_values v ! Suc i) \<or>
      (\<forall>i<29. fc_values v ! Suc i < fc_values v ! i) \<longrightarrow>
      (\<forall>i<29. snd (snd (fc_segments v ! i)) = Green \<longleftrightarrow>
          i = 0 \<or> fc_values v ! i \<le> fc_values v ! Suc i))"
proof -
  have seg: "fc_segments v = segments_of (fc_dates v) (fc_values v) (fc_colors v)"
    and mk: "fc_markers v = zip (fc_dates v) (zip (fc_values v) (fc_colors v))"
    and col: "fc_colors v = colors_of (fc_values v)"
    by (rule forecast_Inr [OF assms])+
  have lv: "length (fc_values v) = 30" and ld: "length (fc_dates v) = 30"
    and lc: "length (fc_colors v) = 30"
    using forecast_values_nth(3,4,5) [OF assms, of 0] by simp_all
  have cn: "fc_colors v ! i = Green \<longleftrightarrow> i = 0 \<or> fc_values v ! (i - 1) \<le> fc_values v ! i"
    if "i < 30" for i
    using that by (simp add: col colors_of_def lv)
  have sn: "fc_segments v ! i = ((fc_dates v ! i, fc_values v ! i),
              (fc_dates v ! Suc i, fc_values v ! Suc i), fc_colors v ! i)" if "i < 29" for i
    using that by (simp add: seg segments_of_def lv)
  have mn: "fc_markers v ! i = (fc_dates v ! i, fc_values v ! i, fc_colors v ! i)"
    if "i < 30" for i
    using that by (simp add: mk lv ld lc)
  have a: "length (fc_segments v) = 29" by (simp add: seg segments_of_def lv)
  have b: "length (fc_markers v) = 30" by (simp add: mk lv ld lc)
  have c: "\<exists>d0 y0 d1 y1 c.
         fc_segments v ! i = ((d0, y0), (d1, y1), c) \<and>
         y0 = fc_values v ! i \<and> y1 = fc_values v ! Suc i \<and>
         (c = Green \<longleftrightarrow> i = 0 \<or> fc_values v ! (i - 1) \<le> y0) \<and>
         fc_markers v ! i = (d0, y0, c)" if "i < 29" for i
    using sn [OF that] cn [of i] mn [of i] that by simp
  have d: "\<exists>d y c. fc_markers v ! i = (d, y, c) \<and> c = fc_colors v ! i \<and>
         (c = Green \<longleftrightarrow> i = 0 \<or> fc_values v ! (i - 1) \<le> y)" if "i < 30" for i
    using mn [OF that] cn [OF that] by simp
  have e: "snd (snd (fc_segments v ! i)) = Green \<longleftrightarrow>
          i = 0 \<or> fc_values v ! i \<le> fc_values v ! Suc i"
    if mono: "(\<forall>i<29. fc_values v ! i \<le> fc_values v ! Suc i) \<or>
      (\<forall>i<29. fc_values v ! Suc i < fc_values v ! i)" and i: "i < 29" for i
  proof (cases i)
    case 0
    with sn [OF i] cn [of 0] show ?thesis by simp
  next
    case (Suc j)
    with i have j: "j < 29" by simp
    from mono have "fc_values v ! j \<le> fc_values v ! Suc j \<longleftrightarrow>
        fc_values v ! Suc j \<le> fc_values v ! Suc (Suc j)"
      using i j Suc by (metis not_le)
    with sn [OF i] cn [of i] i Suc show ?thesis by simp
  qed
  from a b c d e show ?thesis by blast
qed

theorem forecast_segment_colors_witness:
  "forecast exact_solver exact_line sample_table =
     Inr (projr (forecast exact_solver exact_line sample_table)) \<and>
   length (fc_segments (projr (forecast exact_solver exact_line sample_table))) = 29 \<and>
   length (fc_markers (projr (forecast exact_solver exact_line sample_table))) = 30"
proof -
  let ?v = "projr (forecast exact_solver exact_line sample_table)"
  have "valid_dataset sample_table" and "0 < nrows sample_table" by code_simp+
  moreover have "\<forall>X ys. X \<noteq> [] \<longrightarrow> (\<exists>m. exact_solver X ys = Inr m)"
    by (simp add: exact_solver_def Let_def)
  ultimately have "\<exists>v. forecast exact_solver exact_line sample_table = Inr v"
    by (rule forecast_total)
  then have r: "forecast exact_solver exact_line sample_table = Inr ?v" by auto
  from forecast_segment_colors [OF r]
  have "length (fc_segments ?v) = 29" and "length (fc_markers ?v) = 30" by blast+
  with r show ?thesis by blast
qed

text \<open>
  The claim as written fails on a forecast that falls by steps: the segment from
  point 8 to point 9 is level, so its end value is at least its start value, and it
  is drawn red because point 8 lies below point 7.
\<close>

theorem segment_color_counterexample:
  "length stepped_values = 30 \<and>
   snd (snd (segments_of (date_range 0 30) stepped_values (colors_of stepped_values) ! 8)) = Red \<and>
   stepped_values ! 8 \<le> stepped_values ! 9"
  by code_simp

text \<open>
  C4 (as amended). A table without rows is never forecast, and the failure is not a
  dedicated error: without a date column it is the \<^verbatim>\<open>KeyError\<close> of the lookup, without
  a \<open>sale_amount\<close> column the \<^verbatim>\<open>KeyError\<close> of that lookup, and with both columns the
  \<^verbatim>\<open>ValueError\<close> of the regression fitted on no sample.
\<close>

theorem forecast_empty_dataset:
  assumes "list_all (\<lambda>(c, xs). xs = []) df"
  shows "forecast solver line df =
     (if map_of df ''date'' = None then Inl (KeyError ''date'')
      else if map_of df ''sale_amount'' = None then Inl (KeyError ''sale_amount'')
      else Inl (ValueError No_samples))"
proof -
  have e: "xs = []" if "map_of df c = Some xs" for c xs
    using assms that by (auto simp: list_all_iff dest!: map_of_SomeD)
  have ds: "daily_sales [] [] = Inr ([] :: (int \<times> cell \<times> nat) list)"
    by (simp add: daily_sales_def groupby_sum_def)
  have dr: "dated_rows [] [] = []" by (simp add: dated_rows_def)
  show ?thesis
  proof (cases "map_of df ''date''")
    case None
    then show ?thesis by (simp add: forecast_def column_def)
  next
    case (Some dc)
    with e have dc: "map_of df ''date'' = Some []" by blast
    show ?thesis
    proof (cases "map_of df ''sale_amount''")
      case None
      with dc show ?thesis by (simp add: forecast_def column_def)
    next
      case (Some am)
      with e have "map_of df ''sale_amount'' = Some []" by blast
      with dc show ?thesis by (simp add: forecast_def column_def dr ds fit_def)
    qed
  qed
qed

theorem forecast_empty_dataset_witness:
  "list_all (\<lambda>(c, xs). xs = []) [(''date'', [] :: cell list), (''sale_amount'', [])] \<and>
   forecast exact_solver exact_line [(''date'', []), (''sale_amount'', [])] =
     Inl (ValueError No_samples)"
proof -
  have h: "list_all (\<lambda>(c, xs). xs = []) [(''date'', [] :: cell list), (''sale_amount'', [])]"
    by simp
  from forecast_empty_dataset [OF h, of exact_solver exact_line]
  have "forecast exact_solver exact_line [(''date'', []), (''sale_amount'', [])] =
      Inl (ValueError No_samples)"
    by simp
  with h show ?thesis by blast
qed

text \<open>
  The claim as written fails on the table without rows and columns, which is what an
  empty record list is read back as: the failure is the \<^verbatim>\<open>KeyError\<close> of the date lookup.
\<close>

theorem forecast_empty_counterexample:
  "forecast exact_solver exact_line [] = Inl (KeyError ''date'')"
  by (simp add: forecast_def column_def)

end
